theory Spec2Isabelle
  imports Main
begin

section \<open>Values, failures and the objects of one call\<close>

text \<open>
  JavaScript values as far as the dispatcher and the transport look at them. The
  dispatcher never inspects an input, a context or a result; the transport builds
  object literals and applies \<open>??\<close> to a payload.
\<close>

datatype jsval =
    Undefined
  | Null
  | Bool bool
  | Num int
  | Str string
  | Obj "(string \<times> jsval) list"

text \<open>
  What a promise can be rejected with. \<open>RPCError\<close> is the class of \<open>rpc-error.ts\<close>
  (\<open>code\<close>, \<open>message\<close>, optional \<open>payload\<close>; an omitted payload is \<open>undefined\<close>).
  \<open>Foreign\<close> stands for every thrown value that is not \<open>instanceof RPCError\<close>
  (a \<open>ZodError\<close>, a \<open>TypeError\<close>, ...), told apart by a description.
\<close>

datatype thrown =
    RPCError (code: int) (message: string) (payload: jsval)
  | Foreign string

definition rpc_error :: "int \<Rightarrow> string \<Rightarrow> thrown" where
  "rpc_error c m = RPCError c m Undefined"

text \<open>How an awaited promise settles.\<close>

datatype outcome = Resolved jsval | Rejected thrown

text \<open>
  \<open>ctx\<close> and \<open>res\<close> are references to objects owned by the caller; middleware and
  handlers may mutate \<open>ctx\<close> and call \<open>res.setHeader\<close> / \<open>res.status\<close>. Their contents
  during one call are the \<open>env\<close>: the current context value and the calls made on the
  response sink so far.
\<close>

datatype sink_call = SetHeader string string | Status int

record env =
  ctx :: jsval
  res :: "sink_call list"

section \<open>Middleware, schemas, procedures and routers\<close>

text \<open>
  A middleware is a function \<open>(ctx, input, res, next) => Promise\<close>. What it can do that
  the dispatcher can observe is: settle (\<open>Return\<close>, \<open>Throw\<close>), change or read \<open>ctx\<close> and
  \<open>res\<close> (\<open>Act\<close>, \<open>Observe\<close>), and await \<open>next()\<close> any number of times, continuing with
  the way it settled (\<open>Next\<close>; the continuation receives a rejection too, as a
  \<open>try\<close>/\<open>catch\<close> around \<open>await next()\<close> does). Its body is given the parsed input,
  as a value: a middleware that changes the parsed object in place is outside this
  model, as is one that never settles or that reaches into the router tree.
\<close>

datatype prog =
    Return jsval
  | Throw thrown
  | Act "env \<Rightarrow> env" prog
  | Observe "env \<Rightarrow> prog"
  | Next "outcome \<Rightarrow> prog"

datatype middleware = Middleware (mw_name: string) (mw_body: "jsval \<Rightarrow> prog")

text \<open>A schema is its \<open>parse\<close> method; \<open>Rejected\<close> is what \<open>parse\<close> throws.\<close>

type_synonym schema = "jsval \<Rightarrow> outcome"

type_synonym addr = nat

text \<open>
  The two classes of \<open>rpc.ts\<close>, as objects on a heap: routes hold references, and a
  dispatch assigns to the \<open>middlewares\<close> field of the objects it passes. A handler
  receives the parsed input and acts on \<open>ctx\<close> and \<open>res\<close>.

  A router object is given by the \<open>routes\<close> object its constructor received and by the
  array its field initializer created. The constructor ends with
  \<open>Object.assign(this, routes)\<close>, so every route name is an own property of the router
  as well: a route named \<open>routes\<close>, \<open>middlewares\<close> or \<open>call\<close> stands where the field
  or the method of that name is read (see \<open>routes_read\<close> and \<open>router_call\<close> below).
  Routes are not added or removed once the router is built.
\<close>

datatype obj =
    Procedure (inputSchema: schema) (outputSchema: schema)
      (handler: "jsval \<Rightarrow> env \<Rightarrow> outcome \<times> env") (middlewares: "middleware list")
  | Router (routes: "string \<rightharpoonup> addr") (middlewares: "middleware list")

text \<open>
  The trace is ghost state: it records, in order, each stage of a pipeline that was
  entered, with the value it was given. No source function reads it.
\<close>

datatype event =
    InputParse jsval
  | MiddlewareRun string jsval
  | HandlerRun jsval
  | OutputParse jsval

record state =
  heap :: "addr \<Rightarrow> obj option"
  env :: env
  trace :: "event list"

section \<open>Procedure.call\<close>

text \<open>Running one middleware body against the thunk \<open>next\<close>.\<close>

primrec run :: "prog \<Rightarrow> (state \<Rightarrow> outcome \<times> state) \<Rightarrow> state \<Rightarrow> outcome \<times> state" where
  "run (Return v) nxt s = (Resolved v, s)"
| "run (Throw e) nxt s = (Rejected e, s)"
| "run (Act f p) nxt s = run p nxt (s\<lparr>env := f (env s)\<rparr>)"
| "run (Observe k) nxt s = run (k (env s)) nxt s"
| "run (Next k) nxt s = (case nxt s of (r, s') \<Rightarrow> run (k r) nxt s')"

text \<open>\<open>() => Promise.resolve(this.handler(ctx, parsedInput, res))\<close>\<close>

definition handler_thunk :: "obj \<Rightarrow> jsval \<Rightarrow> state \<Rightarrow> outcome \<times> state" where
  "handler_thunk this parsedInput s =
     (case handler this parsedInput (env s) of
        (r, w) \<Rightarrow> (r, s\<lparr>env := w, trace := trace s @ [HandlerRun parsedInput]\<rparr>))"

text \<open>
  One step of the composition, \<open>() => middleware(ctx, parsedInput, res, next)\<close>:
  the thunk that enters \<open>middleware\<close> with \<open>next\<close> as its continuation.
\<close>

definition invoke ::
  "jsval \<Rightarrow> middleware \<Rightarrow> (state \<Rightarrow> outcome \<times> state) \<Rightarrow> state \<Rightarrow> outcome \<times> state" where
  "invoke parsedInput middleware next s =
     run (mw_body middleware parsedInput) next
       (s\<lparr>trace := trace s @ [MiddlewareRun (mw_name middleware) parsedInput]\<rparr>)"

text \<open>
  \<open>this.middlewares.reduceRight((next, middleware) =>
     () => middleware(ctx, parsedInput, res, next), handlerThunk)\<close>
\<close>

definition composed :: "obj \<Rightarrow> jsval \<Rightarrow> state \<Rightarrow> outcome \<times> state" where
  "composed this parsedInput =
     foldr (invoke parsedInput) (middlewares this) (handler_thunk this parsedInput)"

definition procedure_call :: "obj \<Rightarrow> jsval \<Rightarrow> state \<Rightarrow> outcome \<times> state" where
  "procedure_call this input s =
     (case inputSchema this input of
        Rejected e \<Rightarrow> (Rejected e, s\<lparr>trace := trace s @ [InputParse input]\<rparr>)
      | Resolved parsedInput \<Rightarrow>
          (case composed this parsedInput (s\<lparr>trace := trace s @ [InputParse input]\<rparr>) of
             (Rejected e, s') \<Rightarrow> (Rejected e, s')
           | (Resolved result, s') \<Rightarrow>
               (outputSchema this result, s'\<lparr>trace := trace s' @ [OutputParse result]\<rparr>)))"

section \<open>Router.call\<close>

text \<open>\<open>path.split(".")\<close>: never empty; the empty string gives one empty segment.\<close>

fun split_dot :: "string \<Rightarrow> string list" where
  "split_dot [] = [[]]"
| "split_dot (c # cs) =
     (if c = CHR ''.'' then [] # split_dot cs
      else (case split_dot cs of [] \<Rightarrow> [[c]] | w # ws \<Rightarrow> (c # w) # ws))"

text \<open>\<open>parts.join(".")\<close>\<close>

fun join_dot :: "string list \<Rightarrow> string" where
  "join_dot [] = []"
| "join_dot [p] = p"
| "join_dot (p # q # ps) = p @ ''.'' @ join_dot (q # ps)"

datatype path = PathString string | PathArray "string list"

text \<open>\<open>Array.isArray(path) ? path : path.split(".")\<close>\<close>

fun parts_of :: "path \<Rightarrow> string list" where
  "parts_of (PathArray a) = a"
| "parts_of (PathString str) = split_dot str"

text \<open>
  \<open>const [first, ...rest] = parts\<close>: on an empty array \<open>first\<close> is \<open>undefined\<close>, which
  as a property key and inside a template literal reads \<open>"undefined"\<close>.
\<close>

definition first_key :: "string list \<Rightarrow> string" where
  "first_key parts = (case parts of [] \<Rightarrow> ''undefined'' | first # _ \<Rightarrow> first)"

text \<open>
  What a property read \<open>o[key]\<close> can give as far as \<open>Router.call\<close> tells values apart:
  nothing (\<open>undefined\<close>), a \<open>Procedure\<close> or \<open>Router\<close> object, or some other truthy value
  (a function, an array, a schema, a plain object).
\<close>

datatype slot = Absent | Other | Own addr

text \<open>
  A read on an ordinary object (\<open>createRouter({...})\<close> is given an object literal): a
  name that is not an own property is looked up on \<open>Object.prototype\<close>, whose members
  are functions and objects.
\<close>

definition object_prototype_keys :: "string list" where
  "object_prototype_keys =
     [''constructor'', ''hasOwnProperty'', ''isPrototypeOf'', ''propertyIsEnumerable'',
      ''toLocaleString'', ''toString'', ''valueOf'', ''__proto__'',
      ''__defineGetter__'', ''__defineSetter__'', ''__lookupGetter__'', ''__lookupSetter__'']"

definition get_route :: "(string \<rightharpoonup> addr) \<Rightarrow> string \<Rightarrow> slot" where
  "get_route rts first =
     (case rts first of
        Some target \<Rightarrow> Own target
      | None \<Rightarrow> if first \<in> set object_prototype_keys then Other else Absent)"

text \<open>
  A read on a \<open>Procedure\<close> or \<open>Router\<close> object. A procedure has its four fields and the
  method \<open>call\<close>; a router has the route names \<open>Object.assign\<close> copied onto it, then its
  two fields and the methods \<open>call\<close> and \<open>use\<close>.
\<close>

definition procedure_members :: "string list" where
  "procedure_members = [''inputSchema'', ''outputSchema'', ''handler'', ''middlewares'', ''call'']"

definition router_members :: "string list" where
  "router_members = [''routes'', ''middlewares'', ''call'', ''use'']"

definition member :: "obj \<Rightarrow> string \<Rightarrow> slot" where
  "member ob key =
     (case ob of
        Procedure isch osch h mws \<Rightarrow>
          if key \<in> set (procedure_members @ object_prototype_keys) then Other else Absent
      | Router rts mws \<Rightarrow>
          (case rts key of
             Some target \<Rightarrow> Own target
           | None \<Rightarrow> if key \<in> set (router_members @ object_prototype_keys) then Other else Absent))"

text \<open>
  \<open>this.routes[first]\<close>. \<open>this.routes\<close> is the routes object, unless a route is named
  \<open>routes\<close>: then \<open>Object.assign\<close> has put that child in its place and the read goes to
  the child. \<open>None\<close> stands for a dangling reference.
\<close>

definition routes_read :: "(addr \<Rightarrow> obj option) \<Rightarrow> (string \<rightharpoonup> addr) \<Rightarrow> string \<Rightarrow> slot option" where
  "routes_read h rts first =
     (case rts ''routes'' of
        None \<Rightarrow> Some (get_route rts first)
      | Some child \<Rightarrow> map_option (\<lambda>ob. member ob first) (h child))"

definition quoted :: "string \<Rightarrow> string" where
  "quoted str = [CHR 0x27] @ str @ [CHR 0x27]"

definition not_found :: "string list \<Rightarrow> thrown" where
  "not_found parts = rpc_error 404 (''Route '' @ quoted (join_dot parts) @ '' not found'')"

definition not_callable :: "string list \<Rightarrow> thrown" where
  "not_callable parts = rpc_error 400 (''Route '' @ quoted (join_dot parts) @ '' is not callable'')"

definition invalid_route :: "string \<Rightarrow> thrown" where
  "invalid_route first = rpc_error 400 (''Invalid route at '' @ quoted first)"

text \<open>
  The \<open>TypeError\<close> of the language: spreading something that is not iterable, calling
  something that is not a function.
\<close>

definition type_error :: thrown where
  "type_error = Foreign ''TypeError''"

text \<open>
  The body of \<open>Router.call\<close>, with \<open>this\<close> an address. The two assignments to
  \<open>target.middlewares\<close> of the source are the two heap updates.
  \<^item> \<open>this.middlewares\<close> and \<open>target.middlewares\<close> are the arrays unless a route of that
    router is named \<open>middlewares\<close>; then the spread, or the call of \<open>unshift\<close>, raises a
    \<open>TypeError\<close> and nothing is written.
  \<^item> \<open>target.call\<close> of a router is the method unless a route of the target is named
    \<open>call\<close>; then the call raises a \<open>TypeError\<close>, after \<open>unshift\<close> has run.
  The method is taken as entered on \<open>this\<close>, as by the transport or a test; the read of
  \<open>call\<close> that leads there is modelled for the routers a dispatch descends into.
  The result is \<open>None\<close> when the call does not return (a chain of routers under the key
  \<open>undefined\<close> that leads back to itself), and for a heap on which \<open>this\<close> is not a router
  or a route dangles, which no JavaScript heap is.
\<close>

partial_function (option) router_call ::
  "addr \<Rightarrow> path \<Rightarrow> jsval \<Rightarrow> state \<Rightarrow> (outcome \<times> state) option" where
  "router_call this path input s =
     (case heap s this of
        None \<Rightarrow> None
      | Some (Procedure isch osch h pmws) \<Rightarrow> None
      | Some (Router rts mws) \<Rightarrow>
          (let parts = parts_of path; first = first_key parts; rest = tl parts in
           case routes_read (heap s) rts first of
             None \<Rightarrow> None
           | Some Absent \<Rightarrow> Some (Rejected (not_found parts), s)
           | Some Other \<Rightarrow> Some (Rejected (invalid_route first), s)
           | Some (Own t) \<Rightarrow>
               (case heap s t of
                  None \<Rightarrow> None
                | Some (Procedure isch osch h tmws) \<Rightarrow>
                    if rest \<noteq> [] then Some (Rejected (not_callable parts), s)
                    else if rts ''middlewares'' = None
                    then (let target = Procedure isch osch h (mws @ tmws)
                          in Some (procedure_call target input
                                     (s\<lparr>heap := (heap s)(t \<mapsto> target)\<rparr>)))
                    else Some (Rejected type_error, s)
                | Some (Router trts tmws) \<Rightarrow>
                    if rts ''middlewares'' = None \<and> trts ''middlewares'' = None
                    then (let s' = s\<lparr>heap := (heap s)(t \<mapsto> Router trts (mws @ tmws))\<rparr>
                          in if trts ''call'' = None
                             then router_call t (PathArray rest) input s'
                             else Some (Rejected type_error, s'))
                    else Some (Rejected type_error, s))))"

declare router_call.simps [code]

section \<open>The transport's failure branch\<close>

text \<open>\<open>a ?? b\<close>\<close>

definition nullish :: "jsval \<Rightarrow> jsval \<Rightarrow> jsval" where
  "nullish a b = (if a = Undefined \<or> a = Null then b else a)"

text \<open>\<open>err instanceof RPCError ? err : new RPCError(500, "Internal server error")\<close>\<close>

definition http_error :: "thrown \<Rightarrow> thrown" where
  "http_error err =
     (case err of RPCError c m p \<Rightarrow> err | Foreign d \<Rightarrow> rpc_error 500 ''Internal server error'')"

text \<open>
  \<open>res.writeHead\<close> of Node's response raises when the status is not in 100..999 and
  when the head has been written before. The wrapper handed to the dispatcher has
  \<open>status: (code) => res.writeHead(code)\<close>, so the head has been written once a call of
  \<open>status\<close> with a status in that range has been made. Codes are integers here; one that
  does not fit 32 bits, which Node truncates before the test, is outside this model.
\<close>

definition valid_status :: "int \<Rightarrow> bool" where
  "valid_status c = (100 \<le> c \<and> c \<le> 999)"

definition head_sent :: "sink_call list \<Rightarrow> bool" where
  "head_sent calls = list_ex (\<lambda>c. case c of Status n \<Rightarrow> valid_status n | SetHeader k v \<Rightarrow> False) calls"

text \<open>
  The \<open>catch\<close> block of the request listener, entered with what was thrown and with the
  calls made on the response wrapper so far. It first calls
  \<open>res.writeHead(httpErr.code, ...)\<close>; if that raises, nothing is serialized (\<open>None\<close>).
  Otherwise the result is the status written and the object handed to
  \<open>JSON.stringify\<close> for \<open>res.end\<close>.
\<close>

definition error_reply :: "sink_call list \<Rightarrow> thrown \<Rightarrow> (int \<times> jsval) option" where
  "error_reply calls err =
     (let httpErr = http_error err in
      if valid_status (code httpErr) \<and> \<not> head_sent calls
      then Some (code httpErr,
                 Obj [(''error'',
                       Obj [(''code'', Num (code httpErr)),
                            (''message'', Str (message httpErr)),
                            (''payload'', nullish (payload httpErr) Null)])])
      else None)"

section \<open>Calls in sequence\<close>

text \<open>
  The same dispatch issued \<open>n\<close> times in sequence against one heap. Every call gets
  caller objects with the same contents and an empty trace; the heap is carried from one
  call to the next. The result lists, per call, how it settled and its trace.
\<close>

primrec call_times ::
  "nat \<Rightarrow> addr \<Rightarrow> path \<Rightarrow> jsval \<Rightarrow> env \<Rightarrow> (addr \<Rightarrow> obj option) \<Rightarrow>
     ((outcome \<times> event list) list \<times> (addr \<Rightarrow> obj option)) option" where
  "call_times 0 this path input e h = Some ([], h)"
| "call_times (Suc n) this path input e h =
     (case router_call this path input \<lparr>heap = h, env = e, trace = []\<rparr> of
        None \<Rightarrow> None
      | Some (r, s') \<Rightarrow>
          (case call_times n this path input e (heap s') of
             None \<Rightarrow> None
           | Some (rs, h') \<Rightarrow> Some ((r, trace s') # rs, h')))"

section \<open>Vocabulary for the properties\<close>

text \<open>
  \<open>descends h a parts b rest\<close>: on heap \<open>h\<close>, resolving \<open>parts\<close> from router \<open>a\<close> passes
  through nested routers only and arrives at \<open>b\<close> with \<open>rest\<close> still to resolve. No
  router left behind has a route named \<open>routes\<close> or \<open>middlewares\<close>, and no router entered
  has one named \<open>middlewares\<close> or \<open>call\<close>, so that every read on the way finds the field
  or the method.
\<close>

inductive descends ::
  "(addr \<Rightarrow> obj option) \<Rightarrow> addr \<Rightarrow> string list \<Rightarrow> addr \<Rightarrow> string list \<Rightarrow> bool"
  for h :: "addr \<Rightarrow> obj option" where
  here: "descends h a parts a parts"
| down: "h a = Some (Router rts mws) \<Longrightarrow> rts ''routes'' = None \<Longrightarrow> rts ''middlewares'' = None \<Longrightarrow>
         rts (first_key parts) = Some t \<Longrightarrow> h t = Some (Router trts tmws) \<Longrightarrow>
         trts ''middlewares'' = None \<Longrightarrow> trts ''call'' = None \<Longrightarrow>
         descends h t (tl parts) b rest \<Longrightarrow>
         descends h a parts b rest"

code_pred (modes: i \<Rightarrow> i \<Rightarrow> i \<Rightarrow> o \<Rightarrow> o \<Rightarrow> bool, i \<Rightarrow> i \<Rightarrow> i \<Rightarrow> i \<Rightarrow> i \<Rightarrow> bool) descends .

text \<open>
  \<open>resolves h a parts rs t\<close>: on heap \<open>h\<close>, \<open>parts\<close> names the procedure \<open>t\<close> from
  router \<open>a\<close>, with no segment left over; \<open>rs\<close> lists the routers passed, \<open>a\<close> first.
  The routers passed have no route that hides a field or the method, as above.
\<close>

inductive resolves ::
  "(addr \<Rightarrow> obj option) \<Rightarrow> addr \<Rightarrow> string list \<Rightarrow> addr list \<Rightarrow> addr \<Rightarrow> bool"
  for h :: "addr \<Rightarrow> obj option" where
  leaf: "h a = Some (Router rts mws) \<Longrightarrow> rts ''routes'' = None \<Longrightarrow> rts ''middlewares'' = None \<Longrightarrow>
         rts (first_key parts) = Some t \<Longrightarrow>
         h t = Some (Procedure isch osch hdl pmws) \<Longrightarrow> tl parts = [] \<Longrightarrow>
         resolves h a parts [a] t"
| node: "h a = Some (Router rts mws) \<Longrightarrow> rts ''routes'' = None \<Longrightarrow> rts ''middlewares'' = None \<Longrightarrow>
         rts (first_key parts) = Some c \<Longrightarrow> h c = Some (Router crts cmws) \<Longrightarrow>
         crts ''middlewares'' = None \<Longrightarrow> crts ''call'' = None \<Longrightarrow>
         resolves h c (tl parts) rs t \<Longrightarrow>
         resolves h a parts (a # rs) t"

code_pred (modes: i \<Rightarrow> i \<Rightarrow> i \<Rightarrow> o \<Rightarrow> o \<Rightarrow> bool) resolves .

text \<open>The list a node stores, and the lists stored along a sequence of nodes, in order.\<close>

definition stored :: "(addr \<Rightarrow> obj option) \<Rightarrow> addr \<Rightarrow> middleware list" where
  "stored h a = (case h a of None \<Rightarrow> [] | Some ob \<Rightarrow> middlewares ob)"

definition merged :: "(addr \<Rightarrow> obj option) \<Rightarrow> addr list \<Rightarrow> middleware list" where
  "merged h rs = concat (map (stored h) rs)"

text \<open>
  Two heaps with the same objects up to their \<open>middlewares\<close> fields: what a dispatch
  leaves of the heap it started on.
\<close>

definition same_routes :: "(addr \<Rightarrow> obj option) \<Rightarrow> (addr \<Rightarrow> obj option) \<Rightarrow> bool" where
  "same_routes h h' =
     (\<forall>a. case h a of
            None \<Rightarrow> h' a = None
          | Some (Procedure isch osch hdl mws) \<Rightarrow> (\<exists>mws'. h' a = Some (Procedure isch osch hdl mws'))
          | Some (Router rts mws) \<Rightarrow> (\<exists>mws'. h' a = Some (Router rts mws')))"

text \<open>
  What a middleware body does to \<open>ctx\<close> and \<open>res\<close> before it first awaits \<open>next()\<close> or
  settles, when entered with them as in \<open>w\<close>.
\<close>

primrec effects :: "prog \<Rightarrow> env \<Rightarrow> env" where
  "effects (Return v) w = w"
| "effects (Throw e) w = w"
| "effects (Act f p) w = effects p (f w)"
| "effects (Observe k) w = effects (k w) w"
| "effects (Next k) w = w"

text \<open>
  \<open>settled p w\<close>: how the body settles when, entered with \<open>ctx\<close> and \<open>res\<close> as in \<open>w\<close>,
  it does so without calling \<open>next()\<close>; \<open>None\<close> when it calls \<open>next()\<close>.
\<close>

primrec settled :: "prog \<Rightarrow> env \<Rightarrow> outcome option" where
  "settled (Return v) w = Some (Resolved v)"
| "settled (Throw e) w = Some (Rejected e)"
| "settled (Act f p) w = settled p (f w)"
| "settled (Observe k) w = settled (k w) w"
| "settled (Next k) w = None"

text \<open>
  \<open>passes p nxt s\<close>: entered in state \<open>s\<close> with \<open>nxt\<close> for \<open>next()\<close>, the body awaits
  \<open>next()\<close> and then settles the way that call did, without calling \<open>next()\<close> again
  (\<open>return next()\<close>; \<open>const r = await next(); ...; return r\<close>; a guard that does not
  throw this time; a \<open>catch\<close> that has nothing to catch this time).
\<close>

primrec passes :: "prog \<Rightarrow> (state \<Rightarrow> outcome \<times> state) \<Rightarrow> state \<Rightarrow> bool" where
  "passes (Return v) nxt s = False"
| "passes (Throw e) nxt s = False"
| "passes (Act f p) nxt s = passes p nxt (s\<lparr>env := f (env s)\<rparr>)"
| "passes (Observe k) nxt s = passes (k (env s)) nxt s"
| "passes (Next k) nxt s = (case nxt s of (r, s') \<Rightarrow> settled (k r) (env s') = Some r)"

text \<open>
  \<open>all_pass parsedInput mws nxt s\<close>: when the chain \<open>mws\<close> is run from state \<open>s\<close> with
  \<open>nxt\<close> behind it, every middleware of it passes, each on what stands inward of it.
\<close>

primrec all_pass ::
  "jsval \<Rightarrow> middleware list \<Rightarrow> (state \<Rightarrow> outcome \<times> state) \<Rightarrow> state \<Rightarrow> bool" where
  "all_pass parsedInput [] nxt s = True"
| "all_pass parsedInput (m # ms) nxt s =
     (passes (mw_body m parsedInput) (foldr (invoke parsedInput) ms nxt)
        (s\<lparr>trace := trace s @ [MiddlewareRun (mw_name m) parsedInput]\<rparr>)
      \<and> all_pass parsedInput ms nxt
          (s\<lparr>trace := trace s @ [MiddlewareRun (mw_name m) parsedInput],
             env := effects (mw_body m parsedInput) (env s)\<rparr>))"

text \<open>
  \<open>asks p nxt s\<close>: the states in which the body, entered in state \<open>s\<close>, calls \<open>next()\<close>,
  in order. \<open>entries parsedInput mws nxt s\<close>: the states in which \<open>nxt\<close> is entered when
  the chain \<open>mws\<close> in front of it is run from state \<open>s\<close>.
\<close>

primrec asks :: "prog \<Rightarrow> (state \<Rightarrow> outcome \<times> state) \<Rightarrow> state \<Rightarrow> state list" where
  "asks (Return v) nxt s = []"
| "asks (Throw e) nxt s = []"
| "asks (Act f p) nxt s = asks p nxt (s\<lparr>env := f (env s)\<rparr>)"
| "asks (Observe k) nxt s = asks (k (env s)) nxt s"
| "asks (Next k) nxt s = s # (case nxt s of (r, s') \<Rightarrow> asks (k r) nxt s')"

primrec entries ::
  "jsval \<Rightarrow> middleware list \<Rightarrow> (state \<Rightarrow> outcome \<times> state) \<Rightarrow> state \<Rightarrow> state list" where
  "entries parsedInput [] nxt s = [s]"
| "entries parsedInput (m # ms) nxt s =
     concat (map (entries parsedInput ms nxt)
               (asks (mw_body m parsedInput) (foldr (invoke parsedInput) ms nxt)
                  (s\<lparr>trace := trace s @ [MiddlewareRun (mw_name m) parsedInput]\<rparr>)))"

text \<open>
  The contents of \<open>ctx\<close> and \<open>res\<close> once a chain of passing middleware has been entered,
  and the events of entering it.
\<close>

definition entering :: "middleware list \<Rightarrow> jsval \<Rightarrow> env \<Rightarrow> env" where
  "entering mws parsedInput w = foldl (\<lambda>w m. effects (mw_body m parsedInput) w) w mws"

definition runs :: "middleware list \<Rightarrow> jsval \<Rightarrow> event list" where
  "runs mws parsedInput = map (\<lambda>m. MiddlewareRun (mw_name m) parsedInput) mws"

section \<open>Example routers\<close>

definition settle :: "outcome \<Rightarrow> prog" where
  "settle r = (case r of Resolved v \<Rightarrow> Return v | Rejected e \<Rightarrow> Throw e)"

text \<open>\<open>async (ctx, input, res, next) => next()\<close>\<close>

definition forward :: "string \<Rightarrow> middleware" where
  "forward n = Middleware n (\<lambda>input. Next settle)"

text \<open>
  A schema \<open>z.object({ key: z.string() })\<close>: it accepts an object whose \<open>key\<close> is a
  string and returns it without its other keys.
\<close>

definition string_field :: "string \<Rightarrow> schema" where
  "string_field key v =
     (case v of
        Obj kvs \<Rightarrow>
          (case map_of kvs key of
             Some (Str x) \<Rightarrow> Resolved (Obj [(key, Str x)])
           | _ \<Rightarrow> Rejected (Foreign ''ZodError''))
      | _ \<Rightarrow> Rejected (Foreign ''ZodError''))"

text \<open>
  \<open>v[key]\<close> on a value other than \<open>undefined\<close> and \<open>null\<close>, for a key that is not a
  member of a primitive's prototype.
\<close>

definition property :: "jsval \<Rightarrow> string \<Rightarrow> jsval" where
  "property v key =
     (case v of
        Obj kvs \<Rightarrow> (case map_of kvs key of Some x \<Rightarrow> x | None \<Rightarrow> Undefined)
      | _ \<Rightarrow> Undefined)"

text \<open>The decimal digits of a natural number, and a value inside a template literal.\<close>

fun digits :: "nat \<Rightarrow> string" where
  "digits n = (if n < 10 then [char_of (48 + n)] else digits (n div 10) @ [char_of (48 + n mod 10)])"

definition js_string :: "jsval \<Rightarrow> string" where
  "js_string v =
     (case v of
        Undefined \<Rightarrow> ''undefined''
      | Null \<Rightarrow> ''null''
      | Bool b \<Rightarrow> (if b then ''true'' else ''false'')
      | Num n \<Rightarrow> (if n < 0 then ''-'' @ digits (nat (- n)) else digits (nat n))
      | Str x \<Rightarrow> x
      | Obj kvs \<Rightarrow> ''[object Object]'')"

text \<open>\<open>async (ctx, input) => ({ result: `Echo: ${input.message}` })\<close>\<close>

definition echo_handler :: "jsval \<Rightarrow> env \<Rightarrow> outcome \<times> env" where
  "echo_handler v w =
     (if v = Undefined \<or> v = Null then (Rejected type_error, w)
      else (Resolved (Obj [(''result'', Str (''Echo: '' @ js_string (property v ''message'')))]), w))"

definition echo :: "middleware list \<Rightarrow> obj" where
  "echo mws = Procedure (string_field ''message'') (string_field ''result'') echo_handler mws"

text \<open>\<open>async (ctx, { id }) => { throw new RPCError(404, "User not found", { userId: id }) }\<close>\<close>

definition user_not_found :: "jsval \<Rightarrow> env \<Rightarrow> outcome \<times> env" where
  "user_not_found v w =
     (if v = Undefined \<or> v = Null then (Rejected type_error, w)
      else (Rejected (RPCError 404 ''User not found'' (Obj [(''userId'', property v ''id'')])), w))"

text \<open>A raw input with a key the schema does not know, what it parses to, and the answer.\<close>

definition hello :: jsval where
  "hello = Obj [(''message'', Str ''Hello World''), (''debug'', Bool True)]"

definition message_only :: jsval where
  "message_only = Obj [(''message'', Str ''Hello World'')]"

definition echoed :: jsval where
  "echoed = Obj [(''result'', Str ''Echo: Hello World'')]"

definition caller :: env where
  "caller = \<lparr>ctx = Obj [], res = []\<rparr>"

definition fresh :: "(addr \<Rightarrow> obj option) \<Rightarrow> state" where
  "fresh h = \<lparr>heap = h, env = caller, trace = []\<rparr>"

text \<open>A caller whose context carries a token.\<close>

definition signed_in :: env where
  "signed_in = \<lparr>ctx = Obj [(''token'', Str ''secret'')], res = []\<rparr>"

text \<open>\<open>createRouter({ echo }).use(A)\<close>\<close>

definition echo_router :: "addr \<Rightarrow> obj option" where
  "echo_router = [0 \<mapsto> Router [''echo'' \<mapsto> 1] [forward ''A''], 1 \<mapsto> echo []]"

text \<open>\<open>createRouter({ auth: createRouter({ login }).use(B) }).use(A)\<close>, \<open>login\<close> with \<open>C\<close>\<close>

definition nested_router :: "addr \<Rightarrow> obj option" where
  "nested_router =
     [0 \<mapsto> Router [''auth'' \<mapsto> 1] [forward ''A''],
      1 \<mapsto> Router [''login'' \<mapsto> 2] [forward ''B''],
      2 \<mapsto> echo [forward ''C'']]"

text \<open>\<open>createRouter({ "": echo })\<close>\<close>

definition index_router :: "addr \<Rightarrow> obj option" where
  "index_router = [0 \<mapsto> Router [[] \<mapsto> 1] [], 1 \<mapsto> echo []]"

text \<open>\<open>createRouter({ api: createRouter({ call: echo }) })\<close>\<close>

definition shadowed_router :: "addr \<Rightarrow> obj option" where
  "shadowed_router =
     [0 \<mapsto> Router [''api'' \<mapsto> 1] [], 1 \<mapsto> Router [''call'' \<mapsto> 2] [], 2 \<mapsto> echo []]"

text \<open>\<open>createRouter({ routes: createRouter({ "": echo }) })\<close>\<close>

definition routes_router :: "addr \<Rightarrow> obj option" where
  "routes_router =
     [0 \<mapsto> Router [''routes'' \<mapsto> 1] [], 1 \<mapsto> Router [[] \<mapsto> 2] [], 2 \<mapsto> echo []]"

text \<open>A middleware that answers from a cache and never calls \<open>next()\<close>.\<close>

definition cached :: middleware where
  "cached = Middleware ''cached'' (\<lambda>input. Return (Obj [(''result'', Str ''cached'')]))"

text \<open>\<open>await next(); return { result: "stamped" }\<close>\<close>

definition stamp :: middleware where
  "stamp = Middleware ''stamp'' (\<lambda>input. Next (\<lambda>r. Return (Obj [(''result'', Str ''stamped'')])))"

text \<open>A middleware that returns an object the output schema of \<open>echo\<close> does not accept.\<close>

definition blocked :: middleware where
  "blocked = Middleware ''blocked'' (\<lambda>input. Return (Obj [(''blocked'', Bool True)]))"

text \<open>\<open>throw new RPCError(401, "Authentication required")\<close> before \<open>next()\<close>\<close>

definition auth_required :: thrown where
  "auth_required = RPCError 401 ''Authentication required'' Undefined"

definition auth :: middleware where
  "auth = Middleware ''auth'' (\<lambda>input. Throw auth_required)"

text \<open>
  \<open>if (!ctx.token) throw new RPCError(401, "Authentication required"); return next()\<close>:
  what this middleware does depends on the caller's context.
\<close>

definition truthy :: "jsval \<Rightarrow> bool" where
  "truthy v =
     (case v of
        Undefined \<Rightarrow> False
      | Null \<Rightarrow> False
      | Bool b \<Rightarrow> b
      | Num n \<Rightarrow> n \<noteq> 0
      | Str x \<Rightarrow> x \<noteq> []
      | Obj kvs \<Rightarrow> True)"

definition guard :: middleware where
  "guard = Middleware ''guard''
     (\<lambda>input. Observe (\<lambda>w. if truthy (property (ctx w) ''token'') then Next settle
                            else Throw auth_required))"

text \<open>\<open>try { return await next() } catch { return { result: "fallback" } }\<close>\<close>

definition rescue :: middleware where
  "rescue = Middleware ''rescue''
     (\<lambda>input. Next (\<lambda>r. case r of Resolved v \<Rightarrow> Return v
                               | Rejected e \<Rightarrow> Return (Obj [(''result'', Str ''fallback'')])))"


section \<open>Facts about the pipeline of one procedure\<close>

lemmas example_defs =
  echo_router_def nested_router_def index_router_def shadowed_router_def routes_router_def
  echo_def echo_handler_def property_def js_string_def type_error_def forward_def settle_def
  string_field_def hello_def message_only_def echoed_def caller_def fresh_def cached_def
  blocked_def auth_def auth_required_def rescue_def stamp_def guard_def truthy_def
  signed_in_def user_not_found_def

lemmas call_defs =
  get_route_def routes_read_def member_def first_key_def object_prototype_keys_def
  procedure_members_def router_members_def procedure_call_def composed_def
  invoke_def handler_thunk_def not_found_def not_callable_def invalid_route_def
  rpc_error_def quoted_def

lemma run_settled:
  "settled p (env s) = Some r \<Longrightarrow> run p nxt s = (r, s\<lparr>env := effects p (env s)\<rparr>)"
  by (induction p arbitrary: s) auto

lemma run_passes:
  assumes "passes p nxt s"
  shows "fst (run p nxt s) = fst (nxt (s\<lparr>env := effects p (env s)\<rparr>))
       \<and> trace (snd (run p nxt s)) = trace (snd (nxt (s\<lparr>env := effects p (env s)\<rparr>)))
       \<and> heap (snd (run p nxt s)) = heap (snd (nxt (s\<lparr>env := effects p (env s)\<rparr>)))"
  using assms
proof (induction p arbitrary: s)
  case (Next k)
  obtain r s' where n: "nxt s = (r, s')" by (cases "nxt s")
  from Next.prems n have "settled (k r) (env s') = Some r" by simp
  with n show ?case by (simp add: run_settled)
qed auto

text \<open>
  A chain of passing middleware hands control to the innermost thunk, after each of
  them has been entered once in list order, and settles the way that thunk does.
\<close>

lemma chain_passes:
  assumes "all_pass parsed mws nxt s"
  shows "fst (foldr (invoke parsed) mws nxt s)
           = fst (nxt (s\<lparr>env := entering mws parsed (env s), trace := trace s @ runs mws parsed\<rparr>))
       \<and> trace (snd (foldr (invoke parsed) mws nxt s))
           = trace (snd (nxt (s\<lparr>env := entering mws parsed (env s), trace := trace s @ runs mws parsed\<rparr>)))
       \<and> heap (snd (foldr (invoke parsed) mws nxt s))
           = heap (snd (nxt (s\<lparr>env := entering mws parsed (env s), trace := trace s @ runs mws parsed\<rparr>)))"
  using assms
proof (induction mws arbitrary: s)
  case Nil
  show ?case by (simp add: entering_def runs_def)
next
  case (Cons m mws)
  let ?s1 = "s\<lparr>trace := trace s @ [MiddlewareRun (mw_name m) parsed]\<rparr>"
  let ?s2 = "s\<lparr>trace := trace s @ [MiddlewareRun (mw_name m) parsed],
               env := effects (mw_body m parsed) (env s)\<rparr>"
  have eq: "?s2\<lparr>env := entering mws parsed (env ?s2), trace := trace ?s2 @ runs mws parsed\<rparr>
            = s\<lparr>env := entering (m # mws) parsed (env s), trace := trace s @ runs (m # mws) parsed\<rparr>"
    by (simp add: entering_def runs_def)
  have s12: "?s1\<lparr>env := effects (mw_body m parsed) (env ?s1)\<rparr> = ?s2" by simp
  from Cons.prems have pm: "passes (mw_body m parsed) (foldr (invoke parsed) mws nxt) ?s1"
    and rest: "all_pass parsed mws nxt ?s2" by simp_all
  have step: "foldr (invoke parsed) (m # mws) nxt s
              = run (mw_body m parsed) (foldr (invoke parsed) mws nxt) ?s1"
    by (simp add: invoke_def)
  show ?case
    unfolding step
    using run_passes [OF pm] Cons.IH [OF rest]
    unfolding eq s12 by simp
qed

text \<open>
  A middleware that settles without \<open>next()\<close> where it is entered does not use what
  stands inward of it.
\<close>

lemma invoke_settled:
  assumes "settled (mw_body m parsed) (env s) = Some r"
  shows "invoke parsed m nxt s
         = (r, s\<lparr>trace := trace s @ [MiddlewareRun (mw_name m) parsed],
                  env := effects (mw_body m parsed) (env s)\<rparr>)"
  using assms by (simp add: invoke_def run_settled)

text \<open>
  Behind passing middleware, a middleware that settles without \<open>next()\<close> ends the
  chain: nothing inward of it is entered, and the chain settles as it did.
\<close>

lemma chain_settled:
  assumes "all_pass parsed outer (foldr (invoke parsed) (m # inner) nxt) s"
    and "settled (mw_body m parsed) (entering outer parsed (env s)) = Some r"
  shows "fst (foldr (invoke parsed) (outer @ m # inner) nxt s) = r
       \<and> trace (snd (foldr (invoke parsed) (outer @ m # inner) nxt s))
           = trace s @ runs (outer @ [m]) parsed
       \<and> heap (snd (foldr (invoke parsed) (outer @ m # inner) nxt s)) = heap s"
proof -
  let ?s1 = "s\<lparr>env := entering outer parsed (env s), trace := trace s @ runs outer parsed\<rparr>"
  have "foldr (invoke parsed) (m # inner) nxt ?s1
        = (r, ?s1\<lparr>trace := trace ?s1 @ [MiddlewareRun (mw_name m) parsed],
                  env := effects (mw_body m parsed) (env ?s1)\<rparr>)"
    using assms(2) by (simp add: invoke_settled)
  with chain_passes [OF assms(1)]
  show ?thesis by (simp add: runs_def)
qed

text \<open>
  Running a body, or a chain, uses \<open>next()\<close> only in the states in which it is called.
\<close>

lemma run_cong:
  assumes "\<forall>s'\<in>set (asks p nxt s). nxt s' = nxt' s'"
  shows "run p nxt s = run p nxt' s \<and> asks p nxt s = asks p nxt' s"
  using assms
proof (induction p arbitrary: s)
  case (Next k)
  from Next.prems have eq: "nxt s = nxt' s" by simp
  obtain r s' where n: "nxt s = (r, s')" by (cases "nxt s")
  from Next.prems n have "\<forall>x\<in>set (asks (k r) nxt s'). nxt x = nxt' x" by simp
  from Next.IH [OF rangeI this] n eq show ?case by simp
qed auto

lemma chain_cong:
  assumes "\<forall>s'\<in>set (entries parsed mws nxt s). nxt s' = nxt' s'"
  shows "foldr (invoke parsed) mws nxt s = foldr (invoke parsed) mws nxt' s"
  using assms
proof (induction mws arbitrary: s)
  case Nil
  then show ?case by simp
next
  case (Cons m mws)
  let ?s1 = "s\<lparr>trace := trace s @ [MiddlewareRun (mw_name m) parsed]\<rparr>"
  have "\<forall>x\<in>set (asks (mw_body m parsed) (foldr (invoke parsed) mws nxt) ?s1).
          foldr (invoke parsed) mws nxt x = foldr (invoke parsed) mws nxt' x"
  proof
    fix x assume x: "x \<in> set (asks (mw_body m parsed) (foldr (invoke parsed) mws nxt) ?s1)"
    with Cons.prems have "\<forall>s'\<in>set (entries parsed mws nxt x). nxt s' = nxt' s'" by auto
    then show "foldr (invoke parsed) mws nxt x = foldr (invoke parsed) mws nxt' x" by (rule Cons.IH)
  qed
  from run_cong [OF this]
  have "run (mw_body m parsed) (foldr (invoke parsed) mws nxt) ?s1
        = run (mw_body m parsed) (foldr (invoke parsed) mws nxt') ?s1" by simp
  moreover have "\<And>n. foldr (invoke parsed) (m # mws) n s
                     = run (mw_body m parsed) (foldr (invoke parsed) mws n) ?s1"
    by (simp add: invoke_def)
  ultimately show ?case by simp
qed

text \<open>Running a middleware body enters the handler only if \<open>next()\<close> does.\<close>

lemma run_no_handler:
  assumes "\<And>s. \<exists>evs. trace (snd (nxt s)) = trace s @ evs \<and> (\<forall>x. HandlerRun x \<notin> set evs)"
  shows "\<exists>evs. trace (snd (run p nxt s)) = trace s @ evs \<and> (\<forall>x. HandlerRun x \<notin> set evs)"
proof (induction p arbitrary: s)
  case (Next k)
  obtain r s' where n: "nxt s = (r, s')" by (cases "nxt s")
  with assms [of s] obtain evs where 1: "trace s' = trace s @ evs" "\<forall>x. HandlerRun x \<notin> set evs"
    by auto
  from Next.IH [OF rangeI, of r s'] obtain evs'
    where 2: "trace (snd (run (k r) nxt s')) = trace s' @ evs'" "\<forall>x. HandlerRun x \<notin> set evs'"
    by blast
  from 1 2 have "trace (snd (run (Next k) nxt s)) = trace s @ (evs @ evs')
                 \<and> (\<forall>x. HandlerRun x \<notin> set (evs @ evs'))"
    using n by simp
  then show ?case by blast
next
  case (Act f p)
  from Act.IH [of "s\<lparr>env := f (env s)\<rparr>"] show ?case by simp
next
  case (Observe k)
  from Observe.IH [OF rangeI, of "env s" s] show ?case by simp
qed auto

lemma chain_no_handler:
  assumes "\<And>s. \<exists>evs. trace (snd (nxt s)) = trace s @ evs \<and> (\<forall>x. HandlerRun x \<notin> set evs)"
  shows "\<exists>evs. trace (snd (foldr (invoke parsed) mws nxt s)) = trace s @ evs
               \<and> (\<forall>x. HandlerRun x \<notin> set evs)"
proof (induction mws arbitrary: s)
  case Nil
  show ?case using assms by simp
next
  case (Cons m mws)
  let ?s1 = "s\<lparr>trace := trace s @ [MiddlewareRun (mw_name m) parsed]\<rparr>"
  have step: "foldr (invoke parsed) (m # mws) nxt s
              = run (mw_body m parsed) (foldr (invoke parsed) mws nxt) ?s1"
    by (simp add: invoke_def)
  have "\<And>s. \<exists>evs. trace (snd (foldr (invoke parsed) mws nxt s)) = trace s @ evs
                    \<and> (\<forall>x. HandlerRun x \<notin> set evs)"
    by (rule Cons.IH)
  from run_no_handler [of "foldr (invoke parsed) mws nxt", OF this, of "mw_body m parsed" ?s1]
  obtain evs where "trace (snd (run (mw_body m parsed) (foldr (invoke parsed) mws nxt) ?s1))
                    = trace ?s1 @ evs" "\<forall>x. HandlerRun x \<notin> set evs"
    by blast
  then have "trace (snd (foldr (invoke parsed) (m # mws) nxt s))
             = trace s @ (MiddlewareRun (mw_name m) parsed # evs)
             \<and> (\<forall>x. HandlerRun x \<notin> set (MiddlewareRun (mw_name m) parsed # evs))"
    unfolding step by simp
  then show ?case by blast
qed

text \<open>
  When a middleware of the chain settles without \<open>next()\<close> every time it is entered,
  the chain does not depend on what stands inward of it, and does not enter the
  handler, whatever the middleware outward of it do.
\<close>

lemma chain_cut:
  assumes "\<forall>s'\<in>set (entries parsed outer (foldr (invoke parsed) (m # inner) nxt) s).
             settled (mw_body m parsed) (env s') \<noteq> None"
  shows "foldr (invoke parsed) (outer @ m # inner) nxt s
         = foldr (invoke parsed) (outer @ m # inner') nxt' s"
proof -
  let ?N = "foldr (invoke parsed) (m # inner) nxt"
  let ?N' = "foldr (invoke parsed) (m # inner') nxt'"
  have "\<forall>s'\<in>set (entries parsed outer ?N s). ?N s' = ?N' s'"
  proof
    fix s' assume "s' \<in> set (entries parsed outer ?N s)"
    with assms obtain r where "settled (mw_body m parsed) (env s') = Some r" by auto
    then show "?N s' = ?N' s'" by (simp add: invoke_settled)
  qed
  from chain_cong [OF this] show ?thesis by simp
qed

lemma chain_cut_no_handler:
  assumes "\<forall>s'\<in>set (entries parsed outer (foldr (invoke parsed) (m # inner) nxt) s).
             settled (mw_body m parsed) (env s') \<noteq> None"
  shows "\<exists>evs. trace (snd (foldr (invoke parsed) (outer @ m # inner) nxt s)) = trace s @ evs
               \<and> (\<forall>x. HandlerRun x \<notin> set evs)"
proof -
  let ?idle = "\<lambda>s :: state. (Resolved Undefined, s)"
  have "\<And>s. \<exists>evs. trace (snd (?idle s)) = trace s @ evs \<and> (\<forall>x. HandlerRun x \<notin> set evs)"
    by simp
  from chain_no_handler [of ?idle, OF this, of parsed "outer @ [m]" s]
  show ?thesis unfolding chain_cut [OF assms, of "[]" ?idle] .
qed

lemma cut_independent:
  assumes "isch input = Resolved parsed"
    and "\<forall>s'\<in>set (entries parsed outer
                     (foldr (invoke parsed) (m # inner)
                        (handler_thunk (Procedure isch osch hdl (outer @ m # inner)) parsed))
                     (s\<lparr>trace := trace s @ [InputParse input]\<rparr>)).
           settled (mw_body m parsed) (env s') \<noteq> None"
  shows "procedure_call (Procedure isch osch hdl (outer @ m # inner)) input s
         = procedure_call (Procedure isch osch hdl' (outer @ m # inner')) input s"
proof -
  let ?s0 = "s\<lparr>trace := trace s @ [InputParse input]\<rparr>"
  have "composed (Procedure isch osch hdl (outer @ m # inner)) parsed ?s0
        = composed (Procedure isch osch hdl' (outer @ m # inner')) parsed ?s0"
    unfolding composed_def using chain_cut [OF assms(2)] by simp
  with assms(1) show ?thesis by (simp add: procedure_call_def split: prod.splits outcome.splits)
qed

lemma cut_no_handler:
  assumes "inputSchema this input = Resolved parsed"
    and "middlewares this = outer @ m # inner"
    and "\<forall>s'\<in>set (entries parsed outer
                     (foldr (invoke parsed) (m # inner) (handler_thunk this parsed))
                     (s\<lparr>trace := trace s @ [InputParse input]\<rparr>)).
           settled (mw_body m parsed) (env s') \<noteq> None"
  shows "\<exists>evs. trace (snd (procedure_call this input s)) = trace s @ evs
               \<and> (\<forall>x. HandlerRun x \<notin> set evs)"
proof -
  let ?s0 = "s\<lparr>trace := trace s @ [InputParse input]\<rparr>"
  from chain_cut_no_handler [OF assms(3)]
  obtain evs where evs: "trace (snd (composed this parsed ?s0)) = trace ?s0 @ evs"
    "\<forall>x. HandlerRun x \<notin> set evs"
    by (auto simp: composed_def assms(2))
  obtain r' s' where c: "composed this parsed ?s0 = (r', s')" by (cases "composed this parsed ?s0")
  show ?thesis
  proof (cases r')
    case (Resolved v)
    with c evs assms(1) have "trace (snd (procedure_call this input s))
        = trace s @ (InputParse input # evs @ [OutputParse v])
        \<and> (\<forall>x. HandlerRun x \<notin> set (InputParse input # evs @ [OutputParse v]))"
      by (simp add: procedure_call_def)
    then show ?thesis by blast
  next
    case (Rejected e)
    with c evs assms(1) have "trace (snd (procedure_call this input s))
        = trace s @ (InputParse input # evs)
        \<and> (\<forall>x. HandlerRun x \<notin> set (InputParse input # evs))"
      by (simp add: procedure_call_def)
    then show ?thesis by blast
  qed
qed

text \<open>What the call makes of the way the chain settles.\<close>

lemma call_of_chain:
  assumes "inputSchema this input = Resolved parsed"
    and "fst (composed this parsed (s\<lparr>trace := trace s @ [InputParse input]\<rparr>)) = r"
    and "trace (snd (composed this parsed (s\<lparr>trace := trace s @ [InputParse input]\<rparr>))) = tr"
  shows "fst (procedure_call this input s)
           = (case r of Resolved v \<Rightarrow> outputSchema this v | Rejected e \<Rightarrow> Rejected e)
       \<and> trace (snd (procedure_call this input s))
           = (case r of Resolved v \<Rightarrow> tr @ [OutputParse v] | Rejected e \<Rightarrow> tr)"
  using assms
  by (cases "composed this parsed (s\<lparr>trace := trace s @ [InputParse input]\<rparr>)")
     (auto simp: procedure_call_def split: outcome.splits)

section \<open>Properties of Procedure.call\<close>

text \<open>
  C4, as stated, fails: \<open>Procedure.call\<close> does not always resolve to the validated
  result of the handler. With the middleware \<open>cached\<close>, which returns without calling
  \<open>next()\<close>, the input is accepted and the handler's answer to it is accepted by the
  output schema, yet the call resolves to the value \<open>cached\<close> returned.
\<close>

theorem short_circuit_replaces_handler_result:
  "inputSchema (echo [cached]) hello = Resolved message_only
   \<and> echo_handler message_only caller = (Resolved echoed, caller)
   \<and> outputSchema (echo [cached]) echoed = Resolved echoed
   \<and> fst (procedure_call (echo [cached]) hello (fresh Map.empty))
       = Resolved (Obj [(''result'', Str ''cached'')])
   \<and> Obj [(''result'', Str ''cached'')] \<noteq> echoed"
  by (simp add: example_defs call_defs)

text \<open>
  C4, amended: for every input accepted by the input schema, if in this call every
  middleware of the procedure passes (awaits \<open>next()\<close> and settles as that call did) and
  the handler's return value is accepted by the output schema, then \<open>Procedure.call\<close>
  resolves to the output-schema-validated value of the handler's result. The stages
  entered are, in order, the input parse on the raw input, each middleware once in list
  order and then the handler, all three on the parsed input, and the output parse on the
  handler's result.
\<close>

theorem passing_chain_returns_handler_result:
  assumes "inputSchema this input = Resolved parsed"
    and "all_pass parsed (middlewares this) (handler_thunk this parsed)
           (s\<lparr>trace := trace s @ [InputParse input]\<rparr>)"
    and "handler this parsed (entering (middlewares this) parsed (env s)) = (Resolved v, w)"
    and "outputSchema this v = Resolved out"
  shows "fst (procedure_call this input s) = Resolved out \<and>
         trace (snd (procedure_call this input s))
           = trace s @ [InputParse input] @ runs (middlewares this) parsed
               @ [HandlerRun parsed, OutputParse v]"
proof -
  let ?s0 = "s\<lparr>trace := trace s @ [InputParse input]\<rparr>"
  let ?s1 = "?s0\<lparr>env := entering (middlewares this) parsed (env ?s0),
                 trace := trace ?s0 @ runs (middlewares this) parsed\<rparr>"
  have "handler_thunk this parsed ?s1
        = (Resolved v, ?s1\<lparr>env := w, trace := trace ?s1 @ [HandlerRun parsed]\<rparr>)"
    using assms(3) by (simp add: handler_thunk_def)
  with chain_passes [OF assms(2)]
  have "fst (composed this parsed ?s0) = Resolved v"
    and "trace (snd (composed this parsed ?s0))
         = trace s @ [InputParse input] @ runs (middlewares this) parsed @ [HandlerRun parsed]"
    by (simp_all add: composed_def)
  from call_of_chain [OF assms(1) this] assms(4) show ?thesis by simp
qed

theorem passing_chain_witness:
  "fst (procedure_call (echo [guard, forward ''A'']) hello
          \<lparr>heap = Map.empty, env = signed_in, trace = []\<rparr>) = Resolved echoed
   \<and> trace (snd (procedure_call (echo [guard, forward ''A'']) hello
                   \<lparr>heap = Map.empty, env = signed_in, trace = []\<rparr>))
       = [InputParse hello, MiddlewareRun ''guard'' message_only, MiddlewareRun ''A'' message_only,
          HandlerRun message_only, OutputParse echoed]"
proof -
  let ?s = "\<lparr>heap = Map.empty, env = signed_in, trace = []\<rparr>"
  let ?p = "echo [guard, forward ''A'']"
  have parsed: "inputSchema ?p hello = Resolved message_only"
    by (simp add: example_defs)
  have passing: "all_pass message_only (middlewares ?p) (handler_thunk ?p message_only)
                   (?s\<lparr>trace := trace ?s @ [InputParse hello]\<rparr>)"
    by (simp add: example_defs invoke_def handler_thunk_def)
  have handled: "handler ?p message_only (entering (middlewares ?p) message_only (env ?s))
                 = (Resolved echoed, signed_in)"
    by (simp add: example_defs entering_def)
  have accepted: "outputSchema ?p echoed = Resolved echoed"
    by (simp add: example_defs)
  have entered: "runs (middlewares ?p) message_only
                 = [MiddlewareRun ''guard'' message_only, MiddlewareRun ''A'' message_only]"
    by (simp add: echo_def runs_def guard_def forward_def)
  from passing_chain_returns_handler_result [OF parsed passing handled accepted]
  show ?thesis by (simp add: entered)
qed

text \<open>
  C7, as stated, fails: the result of the call is not always the return value of the
  middleware that did not call \<open>next()\<close>. \<open>blocked\<close> returns an object that the output
  schema of \<open>echo\<close> does not accept, and the call is rejected by the output parse; and
  behind \<open>stamp\<close>, which returns a value of its own once \<open>next()\<close> has settled, the
  call resolves to that value and not to the one \<open>cached\<close> returned.
\<close>

theorem short_circuit_value_is_validated:
  "mw_body blocked message_only = Return (Obj [(''blocked'', Bool True)])
   \<and> fst (procedure_call (echo [blocked]) hello (fresh Map.empty)) = Rejected (Foreign ''ZodError'')
   \<and> mw_body cached message_only = Return (Obj [(''result'', Str ''cached'')])
   \<and> fst (procedure_call (echo [stamp, cached]) hello (fresh Map.empty))
       = Resolved (Obj [(''result'', Str ''stamped'')])"
  by (simp add: example_defs call_defs)

text \<open>
  C7, amended. Take a middleware \<open>m\<close> of the effective chain. If, every time it is
  entered in this call, it settles without calling \<open>next()\<close>, then no middleware
  further inward and not the handler executes: the call is the same whatever the handler
  and the middleware inward of \<open>m\<close> are, and it does not enter the handler. If moreover
  every middleware outward of \<open>m\<close> passes in this call and \<open>m\<close> returns \<open>v\<close>, the value
  handed to the output schema is \<open>v\<close> and the call settles as the output parse of \<open>v\<close>
  does.
\<close>

theorem short_circuit_skips_inner_stages:
  assumes "this = Procedure isch osch hdl (outer @ m # inner)"
    and "isch input = Resolved parsed"
  shows "((\<forall>s'\<in>set (entries parsed outer
                      (foldr (invoke parsed) (m # inner) (handler_thunk this parsed))
                      (s\<lparr>trace := trace s @ [InputParse input]\<rparr>)).
             settled (mw_body m parsed) (env s') \<noteq> None) \<longrightarrow>
            procedure_call this input s
              = procedure_call (Procedure isch osch hdl' (outer @ m # inner')) input s
          \<and> (\<exists>evs. trace (snd (procedure_call this input s)) = trace s @ evs
                    \<and> (\<forall>x. HandlerRun x \<notin> set evs)))
       \<and> (all_pass parsed outer (foldr (invoke parsed) (m # inner) (handler_thunk this parsed))
             (s\<lparr>trace := trace s @ [InputParse input]\<rparr>)
           \<and> settled (mw_body m parsed) (entering outer parsed (env s)) = Some (Resolved v) \<longrightarrow>
            fst (procedure_call this input s) = osch v
          \<and> trace (snd (procedure_call this input s))
              = trace s @ [InputParse input] @ runs (outer @ [m]) parsed @ [OutputParse v])"
proof (intro conjI impI)
  let ?s0 = "s\<lparr>trace := trace s @ [InputParse input]\<rparr>"
  assume a: "\<forall>s'\<in>set (entries parsed outer
                      (foldr (invoke parsed) (m # inner) (handler_thunk this parsed)) ?s0).
               settled (mw_body m parsed) (env s') \<noteq> None"
  show "procedure_call this input s
        = procedure_call (Procedure isch osch hdl' (outer @ m # inner')) input s"
    unfolding assms(1) using assms(2) a [unfolded assms(1)] by (rule cut_independent)
  show "\<exists>evs. trace (snd (procedure_call this input s)) = trace s @ evs
              \<and> (\<forall>x. HandlerRun x \<notin> set evs)"
    using cut_no_handler [of this input parsed outer m inner s] assms a by simp
next
  let ?s0 = "s\<lparr>trace := trace s @ [InputParse input]\<rparr>"
  assume b: "all_pass parsed outer (foldr (invoke parsed) (m # inner) (handler_thunk this parsed)) ?s0
           \<and> settled (mw_body m parsed) (entering outer parsed (env s)) = Some (Resolved v)"
  then have "fst (composed this parsed ?s0) = Resolved v"
    and "trace (snd (composed this parsed ?s0))
         = trace s @ [InputParse input] @ runs (outer @ [m]) parsed"
    using chain_settled [of parsed outer m inner "handler_thunk this parsed" ?s0 "Resolved v"]
    by (simp_all add: composed_def assms(1))
  moreover have "inputSchema this input = Resolved parsed" using assms by simp
  ultimately have "fst (procedure_call this input s) = osch v
      \<and> trace (snd (procedure_call this input s))
          = trace s @ [InputParse input] @ runs (outer @ [m]) parsed @ [OutputParse v]"
    using call_of_chain [of this input parsed s "Resolved v"] assms(1) by simp
  then show "fst (procedure_call this input s) = osch v"
    and "trace (snd (procedure_call this input s))
         = trace s @ [InputParse input] @ runs (outer @ [m]) parsed @ [OutputParse v]"
    by simp_all
qed

theorem short_circuit_witness:
  "procedure_call (echo [guard, cached, forward ''B'']) hello
       \<lparr>heap = Map.empty, env = signed_in, trace = []\<rparr>
     = procedure_call (Procedure (string_field ''message'') (string_field ''result'')
                         user_not_found [guard, cached])
         hello \<lparr>heap = Map.empty, env = signed_in, trace = []\<rparr>
   \<and> fst (procedure_call (echo [guard, cached, forward ''B'']) hello
            \<lparr>heap = Map.empty, env = signed_in, trace = []\<rparr>)
     = Resolved (Obj [(''result'', Str ''cached'')])
   \<and> trace (snd (procedure_call (echo [guard, cached, forward ''B'']) hello
                   \<lparr>heap = Map.empty, env = signed_in, trace = []\<rparr>))
       = [InputParse hello, MiddlewareRun ''guard'' message_only,
          MiddlewareRun ''cached'' message_only, OutputParse (Obj [(''result'', Str ''cached'')])]"
proof -
  let ?s = "\<lparr>heap = Map.empty, env = signed_in, trace = []\<rparr>"
  let ?p = "echo [guard, cached, forward ''B'']"
  have shape: "?p = Procedure (string_field ''message'') (string_field ''result'') echo_handler
                        ([guard] @ cached # [forward ''B''])"
    by (simp add: echo_def)
  have parsed: "string_field ''message'' hello = Resolved message_only"
    by (simp add: example_defs)
  have every_time: "\<forall>s'\<in>set (entries message_only [guard]
                       (foldr (invoke message_only) (cached # [forward ''B''])
                          (handler_thunk ?p message_only))
                       (?s\<lparr>trace := trace ?s @ [InputParse hello]\<rparr>)).
                     settled (mw_body cached message_only) (env s') \<noteq> None"
    by (simp add: example_defs invoke_def)
  have passing: "all_pass message_only [guard]
                   (foldr (invoke message_only) (cached # [forward ''B''])
                      (handler_thunk ?p message_only))
                   (?s\<lparr>trace := trace ?s @ [InputParse hello]\<rparr>)
                 \<and> settled (mw_body cached message_only) (entering [guard] message_only (env ?s))
                     = Some (Resolved (Obj [(''result'', Str ''cached'')]))"
    by (simp add: example_defs invoke_def entering_def)
  note skips = short_circuit_skips_inner_stages [OF shape parsed]
  have validated: "string_field ''result'' (Obj [(''result'', Str ''cached'')])
                   = Resolved (Obj [(''result'', Str ''cached'')])"
    by (simp add: string_field_def)
  have entered: "runs [guard, cached] message_only
                 = [MiddlewareRun ''guard'' message_only, MiddlewareRun ''cached'' message_only]"
    by (simp add: runs_def guard_def cached_def)
  from skips [THEN conjunct1, THEN mp, OF every_time, THEN conjunct1, of user_not_found "[]"]
       skips [THEN conjunct2, THEN mp, OF passing]
  show ?thesis by (simp add: validated entered)
qed

section \<open>Properties of Router.call\<close>

lemma router_call_parts:
  "router_call this path input s = router_call this (PathArray (parts_of path)) input s"
  by (simp add: router_call.simps [of this path] router_call.simps [of this "PathArray (parts_of path)"]
        cong: option.case_cong obj.case_cong)

lemma same_routes_refl: "same_routes h h"
  by (auto simp: same_routes_def split: option.splits obj.splits)

lemma same_routes_router:
  "same_routes h h1 \<Longrightarrow> h a = Some (Router rts mws) \<Longrightarrow> \<exists>mws1. h1 a = Some (Router rts mws1)"
  by (auto simp: same_routes_def split: option.splits obj.splits dest!: spec [of _ a])

lemma same_routes_procedure:
  "same_routes h h1 \<Longrightarrow> h a = Some (Procedure isch osch hdl mws) \<Longrightarrow>
     \<exists>mws1. h1 a = Some (Procedure isch osch hdl mws1)"
  by (auto simp: same_routes_def split: option.splits obj.splits dest!: spec [of _ a])


lemma same_routes_update:
  assumes "same_routes h h1" and "h1 t = Some (Router trts tmws)"
  shows "same_routes h (h1(t \<mapsto> Router trts new))"
  unfolding same_routes_def
proof
  fix a
  from assms(1) have at: "case h a of None \<Rightarrow> h1 a = None
      | Some (Procedure isch osch hdl mws) \<Rightarrow> (\<exists>mws'. h1 a = Some (Procedure isch osch hdl mws'))
      | Some (Router rts mws) \<Rightarrow> (\<exists>mws'. h1 a = Some (Router rts mws'))"
    by (simp add: same_routes_def)
  show "case h a of None \<Rightarrow> (h1(t \<mapsto> Router trts new)) a = None
      | Some (Procedure isch osch hdl mws) \<Rightarrow>
          (\<exists>mws'. (h1(t \<mapsto> Router trts new)) a = Some (Procedure isch osch hdl mws'))
      | Some (Router rts mws) \<Rightarrow> (\<exists>mws'. (h1(t \<mapsto> Router trts new)) a = Some (Router rts mws'))"
    using at assms(2) by (cases "a = t") (auto split: option.splits obj.splits)
qed

text \<open>
  Passing through nested routers enters no stage and leaves \<open>ctx\<close> and \<open>res\<close> alone; on
  the heap it changes \<open>middlewares\<close> fields only.
\<close>

lemma descends_call:
  assumes "descends h a parts b rest" and "same_routes h (heap s)"
  shows "\<exists>s1. same_routes h (heap s1) \<and> env s1 = env s \<and> trace s1 = trace s \<and>
           router_call a (PathArray parts) input s = router_call b (PathArray rest) input s1"
  using assms
proof (induction arbitrary: s rule: descends.induct)
  case (here a parts)
  then show ?case by blast
next
  case (down a rts mws parts t trts tmws b rest)
  from same_routes_router [OF down.prems down.hyps(1)]
  obtain mws1 where a: "heap s a = Some (Router rts mws1)" by blast
  from same_routes_router [OF down.prems down.hyps(5)]
  obtain tmws1 where t: "heap s t = Some (Router trts tmws1)" by blast
  let ?s' = "s\<lparr>heap := (heap s)(t \<mapsto> Router trts (mws1 @ tmws1))\<rparr>"
  have step: "router_call a (PathArray parts) input s = router_call t (PathArray (tl parts)) input ?s'"
    using a t down.hyps(2,3,4,6,7)
    by (subst router_call.simps) (simp add: routes_read_def get_route_def)
  have "same_routes h (heap ?s')"
    using same_routes_update [OF down.prems t] by simp
  from down.IH [OF this] step show ?case by auto
qed

text \<open>
  A name that is neither a route nor a member of \<open>Object.prototype\<close> is answered with
  404 at whatever depth it is met, with the segments still unresolved in the message,
  and nothing of any pipeline is entered.
\<close>

lemma missing_route_is_not_found:
  assumes "descends (heap s) this (parts_of path) b rest"
    and "heap s b = Some (Router rts mws)"
    and "rts ''routes'' = None"
    and "rts (first_key rest) = None"
    and "first_key rest \<notin> set object_prototype_keys"
  shows "\<exists>s'. router_call this path input s
                = Some (Rejected (RPCError 404
                     (''Route '' @ quoted (join_dot rest) @ '' not found'') Undefined), s')
              \<and> trace s' = trace s \<and> env s' = env s"
proof -
  from descends_call [OF assms(1) same_routes_refl]
  obtain s1 where s1: "same_routes (heap s) (heap s1)" "env s1 = env s" "trace s1 = trace s"
    and eq: "router_call this (PathArray (parts_of path)) input s = router_call b (PathArray rest) input s1"
    by blast
  from same_routes_router [OF s1(1) assms(2)]
  obtain mws1 where b: "heap s1 b = Some (Router rts mws1)" by blast
  have "router_call b (PathArray rest) input s1 = Some (Rejected (not_found rest), s1)"
    using b assms(3,4,5) by (subst router_call.simps) (simp add: routes_read_def get_route_def)
  with eq s1 show ?thesis
    by (subst router_call_parts) (simp add: not_found_def rpc_error_def)
qed

text \<open>
  A route that is a procedure, met while further segments remain, is answered with 400
  at whatever depth it is met, with the segments left at that router in the message; the
  trace, \<open>ctx\<close> and \<open>res\<close> are as before the call, so nothing of the procedure's
  pipeline is entered. This holds on routers whose routes hide neither a field nor the
  method read on the way.
\<close>

lemma residual_segments_are_not_callable:
  assumes "descends (heap s) this (parts_of path) b rest"
    and "heap s b = Some (Router rts mws)"
    and "rts ''routes'' = None"
    and "rts (first_key rest) = Some t"
    and "heap s t = Some (Procedure isch osch hdl pmws)"
    and "tl rest \<noteq> []"
  shows "\<exists>s'. router_call this path input s
                = Some (Rejected (RPCError 400
                     (''Route '' @ quoted (join_dot rest) @ '' is not callable'') Undefined), s')
              \<and> trace s' = trace s \<and> env s' = env s"
proof -
  from descends_call [OF assms(1) same_routes_refl]
  obtain s1 where s1: "same_routes (heap s) (heap s1)" "env s1 = env s" "trace s1 = trace s"
    and eq: "router_call this (PathArray (parts_of path)) input s = router_call b (PathArray rest) input s1"
    by blast
  from same_routes_router [OF s1(1) assms(2)]
  obtain mws1 where b: "heap s1 b = Some (Router rts mws1)" by blast
  from same_routes_procedure [OF s1(1) assms(5)]
  obtain pmws1 where t: "heap s1 t = Some (Procedure isch osch hdl pmws1)" by blast
  have "router_call b (PathArray rest) input s1 = Some (Rejected (not_callable rest), s1)"
    using b t assms(3,4,6) by (subst router_call.simps) (simp add: routes_read_def get_route_def)
  with eq s1 show ?thesis
    by (subst router_call_parts) (simp add: not_callable_def rpc_error_def)
qed


subsection \<open>What one dispatch runs and what it stores\<close>

lemma run_heap:
  assumes "\<And>s. heap (snd (nxt s)) = heap s"
  shows "heap (snd (run p nxt s)) = heap s"
proof (induction p arbitrary: s)
  case (Next k)
  obtain r s' where n: "nxt s = (r, s')" by (cases "nxt s")
  with assms [of s] have "heap s' = heap s" by simp
  with n Next.IH [OF rangeI, of r s'] show ?case by simp
qed auto

lemma chain_heap:
  assumes "\<And>s. heap (snd (nxt s)) = heap s"
  shows "heap (snd (foldr (invoke parsed) mws nxt s)) = heap s"
proof (induction mws arbitrary: s)
  case Nil
  show ?case by (simp add: assms)
next
  case (Cons m mws)
  let ?s1 = "s\<lparr>trace := trace s @ [MiddlewareRun (mw_name m) parsed]\<rparr>"
  have step: "foldr (invoke parsed) (m # mws) nxt s
              = run (mw_body m parsed) (foldr (invoke parsed) mws nxt) ?s1"
    by (simp add: invoke_def)
  have "\<And>s. heap (snd (foldr (invoke parsed) mws nxt s)) = heap s" by (rule Cons.IH)
  from run_heap [of "foldr (invoke parsed) mws nxt", OF this, of "mw_body m parsed" ?s1]
  show ?case unfolding step by simp
qed

text \<open>The pipeline of a procedure writes nothing on the heap.\<close>

lemma procedure_call_heap: "heap (snd (procedure_call this input s)) = heap s"
proof (cases "inputSchema this input")
  case (Rejected e)
  then show ?thesis by (simp add: procedure_call_def)
next
  case (Resolved parsed)
  let ?s0 = "s\<lparr>trace := trace s @ [InputParse input]\<rparr>"
  have "\<And>s. heap (snd (handler_thunk this parsed s)) = heap s"
    by (simp add: handler_thunk_def split: prod.splits)
  from chain_heap [of "handler_thunk this parsed", OF this]
  have "heap (snd (composed this parsed ?s0)) = heap s"
    by (simp add: composed_def)
  with Resolved show ?thesis
    by (cases "composed this parsed ?s0") (auto simp: procedure_call_def split: outcome.splits)
qed

lemma resolves_hd: "resolves h a parts rs t \<Longrightarrow> rs \<noteq> [] \<and> hd rs = a"
  by (induction rule: resolves.induct) auto

lemma resolves_kinds:
  "resolves h a parts rs t \<Longrightarrow>
     (\<exists>isch osch hdl pmws. h t = Some (Procedure isch osch hdl pmws)) \<and>
     (\<forall>r\<in>set rs. \<exists>rts mws. h r = Some (Router rts mws))"
  by (induction rule: resolves.induct) auto

text \<open>
  The law of one dispatch. Entering router \<open>a\<close> while it stores \<open>acc\<close>, and with the
  nodes further down the path as on \<open>h\<close>, the procedure is called with \<open>acc\<close> followed by
  the lists stored down the path, and each node passed is left storing the list merged
  up to it.
\<close>

lemma resolves_call:
  assumes "resolves h a parts rs t" and "distinct rs"
    and "heap s a = Some (Router (routes (the (h a))) acc)"
    and "\<forall>x\<in>set (tl rs). heap s x = h x" and "heap s t = h t"
  shows "\<exists>s1. router_call a (PathArray parts) input s = Some (procedure_call (the (heap s1 t)) input s1)
           \<and> env s1 = env s \<and> trace s1 = trace s
           \<and> heap s1 t = map_option (\<lambda>ob. Procedure (inputSchema ob) (outputSchema ob) (handler ob)
                                          (acc @ merged h (tl rs) @ middlewares ob)) (h t)
           \<and> (\<forall>k<length rs. stored (heap s1) (rs ! k) = acc @ merged h (take k (tl rs)))
           \<and> (\<forall>x. x \<notin> set (tl rs) \<and> x \<noteq> t \<longrightarrow> heap s1 x = heap s x)"
  using assms
proof (induction arbitrary: s acc rule: resolves.induct)
  case (leaf a rts mws parts t isch osch hdl pmws)
  let ?target = "Procedure isch osch hdl (acc @ pmws)"
  let ?s1 = "s\<lparr>heap := (heap s)(t \<mapsto> ?target)\<rparr>"
  from leaf have a: "heap s a = Some (Router rts acc)" and t: "heap s t = Some (Procedure isch osch hdl pmws)"
    by simp_all
  from leaf.hyps have ne: "a \<noteq> t" by auto
  have "router_call a (PathArray parts) input s = Some (procedure_call ?target input ?s1)"
    using a t leaf.hyps(2,3,4,6)
    by (subst router_call.simps) (simp add: routes_read_def get_route_def Let_def)
  then show ?case
    using leaf.hyps(5) a ne by (intro exI [of _ ?s1]) (simp add: merged_def stored_def)
next
  case (node a rts mws parts c crts cmws rs t)
  from resolves_hd [OF node.hyps(8)] obtain rs' where rs: "rs = c # rs'"
    by (cases rs) auto
  from resolves_kinds [OF node.hyps(8)] node.hyps(5) have tc: "t \<noteq> c" by auto
  from node.prems(1) rs have ac: "a \<noteq> c" and da: "a \<notin> set rs'" and dc: "c \<notin> set rs'"
    and drs: "distinct rs" by auto
  from node.prems(2) node.hyps(1) have a: "heap s a = Some (Router rts acc)" by simp
  from node.prems(3) rs node.hyps(5) have c: "heap s c = Some (Router crts cmws)" by simp
  let ?s' = "s\<lparr>heap := (heap s)(c \<mapsto> Router crts (acc @ cmws))\<rparr>"
  have step: "router_call a (PathArray parts) input s = router_call c (PathArray (tl parts)) input ?s'"
    using a c node.hyps(2,3,4,6,7)
    by (subst router_call.simps) (simp add: routes_read_def get_route_def)
  have p1: "heap ?s' c = Some (Router (routes (the (h c))) (acc @ cmws))"
    using node.hyps(5) by simp
  have p2: "\<forall>x\<in>set (tl rs). heap ?s' x = h x"
    using node.prems(3) rs dc by auto
  have p3: "heap ?s' t = h t" using node.prems(4) tc by simp
  from node.IH [OF drs p1 p2 p3]
  obtain s1 where call: "router_call c (PathArray (tl parts)) input ?s'
                         = Some (procedure_call (the (heap s1 t)) input s1)"
    and e: "env s1 = env s" and tr: "trace s1 = trace s"
    and ht: "heap s1 t = map_option (\<lambda>ob. Procedure (inputSchema ob) (outputSchema ob) (handler ob)
                                       ((acc @ cmws) @ merged h (tl rs) @ middlewares ob)) (h t)"
    and ks: "\<forall>k<length rs. stored (heap s1) (rs ! k) = (acc @ cmws) @ merged h (take k (tl rs))"
    and fr: "\<forall>x. x \<notin> set (tl rs) \<and> x \<noteq> t \<longrightarrow> heap s1 x = heap ?s' x"
    by auto
  have sc: "stored h c = cmws" using node.hyps(5) by (simp add: stored_def)
  have m: "\<And>xs. merged h (c # xs) = cmws @ merged h xs"
    by (simp add: merged_def sc)
  from resolves_kinds [OF node.hyps(8)] node.hyps(1) have ta: "t \<noteq> a" by auto
  have "heap s1 a = heap s a" using fr da ac ta rs by simp
  then have k0: "stored (heap s1) a = acc" using a by (simp add: stored_def)
  have kall: "\<forall>k<length (a # rs). stored (heap s1) ((a # rs) ! k) = acc @ merged h (take k (tl (a # rs)))"
  proof (intro allI impI)
    fix k assume "k < length (a # rs)"
    then show "stored (heap s1) ((a # rs) ! k) = acc @ merged h (take k (tl (a # rs)))"
    proof (cases k)
      case 0
      then show ?thesis using k0 by (simp add: merged_def)
    next
      case (Suc j)
      with \<open>k < length (a # rs)\<close> have "j < length rs" by simp
      with ks have "stored (heap s1) (rs ! j) = (acc @ cmws) @ merged h (take j (tl rs))" by simp
      then show ?thesis using Suc rs by (simp add: m)
    qed
  qed
  have frame: "\<forall>x. x \<notin> set (tl (a # rs)) \<and> x \<noteq> t \<longrightarrow> heap s1 x = heap s x"
    using fr rs by auto
  have "heap s1 t = map_option (\<lambda>ob. Procedure (inputSchema ob) (outputSchema ob) (handler ob)
                                   (acc @ merged h (tl (a # rs)) @ middlewares ob)) (h t)"
    using ht rs by (simp add: m)
  with step call e tr kall frame show ?case by (intro exI [of _ s1]) simp
qed

text \<open>
  From a state \<open>s\<close>, a dispatch along a path of distinct routers calls the procedure
  with the lists stored in \<open>s\<close> along the path, outermost first, followed by the
  procedure's own; afterwards the procedure stores that merged list, and every router
  passed stores the list merged up to it, which is what the next dispatch along the
  path starts from.
\<close>

lemma dispatch_law:
  assumes "resolves (heap s) a parts rs t" and "distinct rs"
  shows "\<exists>s1. router_call a (PathArray parts) input s = Some (procedure_call (the (heap s1 t)) input s1)
           \<and> env s1 = env s \<and> trace s1 = trace s
           \<and> heap s1 t = map_option (\<lambda>ob. Procedure (inputSchema ob) (outputSchema ob) (handler ob)
                                          (merged (heap s) rs @ middlewares ob)) (heap s t)
           \<and> (\<forall>k<length rs. stored (heap s1) (rs ! k) = merged (heap s) (take (Suc k) rs))"
proof -
  from resolves_hd [OF assms(1)] obtain rs' where rs: "rs = a # rs'" by (cases rs) auto
  from resolves_kinds [OF assms(1)] rs
  obtain rts mws where a: "heap s a = Some (Router rts mws)" by auto
  have sa: "stored (heap s) a = mws" using a by (simp add: stored_def)
  from resolves_call [OF assms(1,2), of s mws input] a
  obtain s1 where call: "router_call a (PathArray parts) input s
                         = Some (procedure_call (the (heap s1 t)) input s1)"
    and e: "env s1 = env s" "trace s1 = trace s"
    and ht: "heap s1 t = map_option (\<lambda>ob. Procedure (inputSchema ob) (outputSchema ob) (handler ob)
                                       (mws @ merged (heap s) (tl rs) @ middlewares ob)) (heap s t)"
    and ks: "\<forall>k<length rs. stored (heap s1) (rs ! k) = mws @ merged (heap s) (take k (tl rs))"
    by auto
  have mr: "\<And>xs. merged (heap s) (a # xs) = mws @ merged (heap s) xs"
    by (simp add: merged_def sa)
  have "heap s1 t = map_option (\<lambda>ob. Procedure (inputSchema ob) (outputSchema ob) (handler ob)
                                   (merged (heap s) rs @ middlewares ob)) (heap s t)"
    using ht rs by (simp add: mr)
  moreover have "\<forall>k<length rs. stored (heap s1) (rs ! k) = merged (heap s) (take (Suc k) rs)"
    using ks rs by (simp add: mr)
  ultimately show ?thesis using call e by blast
qed

text \<open>
  With passing middleware, a procedure's pipeline enters its middleware once each in
  list order and then the handler.
\<close>

lemma passing_trace:
  assumes "inputSchema this input = Resolved parsed"
    and "all_pass parsed (middlewares this) (handler_thunk this parsed)
           (s\<lparr>trace := trace s @ [InputParse input]\<rparr>)"
  shows "\<exists>rest. trace (snd (procedure_call this input s))
                 = trace s @ [InputParse input] @ runs (middlewares this) parsed
                     @ HandlerRun parsed # rest"
proof -
  let ?s0 = "s\<lparr>trace := trace s @ [InputParse input]\<rparr>"
  let ?s1 = "?s0\<lparr>env := entering (middlewares this) parsed (env ?s0),
                 trace := trace ?s0 @ runs (middlewares this) parsed\<rparr>"
  have "trace (snd (handler_thunk this parsed ?s1)) = trace ?s1 @ [HandlerRun parsed]"
    by (simp add: handler_thunk_def split: prod.splits)
  with chain_passes [OF assms(2)]
  have "trace (snd (composed this parsed ?s0))
        = trace s @ [InputParse input] @ runs (middlewares this) parsed @ [HandlerRun parsed]"
    by (simp add: composed_def)
  then show ?thesis using assms(1)
    by (cases "composed this parsed ?s0") (auto simp: procedure_call_def split: outcome.splits)
qed

text \<open>
  Hence the order of one dispatch: along distinct routers, with middleware that pass,
  the middleware entered are the lists stored at the time of the call, router by router
  from the outermost, then the procedure's own, each entry once, and then the handler.
  On a tree no dispatch has passed through, the stored lists are the registered ones.
\<close>

lemma dispatch_order:
  assumes "resolves (heap s) a parts rs t" and "distinct rs"
    and "heap s t = Some (Procedure isch osch hdl pmws)"
    and "isch input = Resolved parsed"
    and "\<And>s'. env s' = env s \<Longrightarrow> trace s' = trace s @ [InputParse input] \<Longrightarrow>
           all_pass parsed (merged (heap s) rs @ pmws)
             (handler_thunk (Procedure isch osch hdl pmws) parsed) s'"
  shows "\<exists>r s' rest. router_call a (PathArray parts) input s = Some (r, s')
           \<and> trace s' = trace s @ [InputParse input]
                @ runs (merged (heap s) rs @ pmws) parsed @ HandlerRun parsed # rest"
proof -
  from dispatch_law [OF assms(1,2), of input] assms(3)
  obtain s1 where call: "router_call a (PathArray parts) input s
                         = Some (procedure_call (the (heap s1 t)) input s1)"
    and e: "env s1 = env s" and tr: "trace s1 = trace s"
    and ht: "heap s1 t = Some (Procedure isch osch hdl (merged (heap s) rs @ pmws))"
    by auto
  let ?p = "Procedure isch osch hdl (merged (heap s) rs @ pmws)"
  have same: "handler_thunk ?p parsed = handler_thunk (Procedure isch osch hdl pmws) parsed"
    by (rule ext) (simp add: handler_thunk_def)
  have "inputSchema ?p input = Resolved parsed" using assms(4) by simp
  moreover have "all_pass parsed (middlewares ?p) (handler_thunk ?p parsed)
                   (s1\<lparr>trace := trace s1 @ [InputParse input]\<rparr>)"
    unfolding same using assms(5) [of "s1\<lparr>trace := trace s1 @ [InputParse input]\<rparr>"] e tr
    by simp
  ultimately obtain rest where "trace (snd (procedure_call ?p input s1))
      = trace s1 @ [InputParse input] @ runs (middlewares ?p) parsed @ HandlerRun parsed # rest"
    using passing_trace [of ?p input parsed s1] by blast
  with call ht tr show ?thesis
    by (cases "procedure_call ?p input s1") simp
qed

subsection \<open>The heap is not read by a pipeline\<close>





subsection \<open>The claims about dispatch\<close>

text \<open>
  C1: the stored \<open>middlewares\<close> lists are not left unchanged. One dispatch of
  \<open>auth.login\<close> on the nested example stores \<open>[A, B]\<close> in the router \<open>auth\<close>, which
  held \<open>[B]\<close>, and \<open>[A, B, C]\<close> in the procedure \<open>login\<close>, which held \<open>[C]\<close>.
\<close>

theorem stored_middlewares_rewritten:
  "map_option (\<lambda>(r, s'). (map_option (map mw_name \<circ> middlewares) (heap s' 1),
                            map_option (map mw_name \<circ> middlewares) (heap s' 2)))
     (router_call 0 (PathString ''auth.login'') hello (fresh nested_router))
   = Some (Some [''A'', ''B''], Some [''A'', ''B'', ''C''])
   \<and> map_option (map mw_name \<circ> middlewares) (nested_router 1) = Some [''B'']
   \<and> map_option (map mw_name \<circ> middlewares) (nested_router 2) = Some [''C'']"
  by (simp add: router_call.simps example_defs call_defs split: outcome.splits)

text \<open>
  C2: the same dispatch issued twice does not run every middleware once per call. On
  \<open>createRouter({ echo }).use(A)\<close> the first call enters \<open>A\<close> once and the second
  enters it twice.
\<close>

theorem second_call_runs_middleware_twice:
  "map_option (map snd \<circ> fst) (call_times 2 0 (PathString ''echo'') hello caller echo_router)
   = Some [[InputParse hello, MiddlewareRun ''A'' message_only, HandlerRun message_only,
            OutputParse echoed],
           [InputParse hello, MiddlewareRun ''A'' message_only, MiddlewareRun ''A'' message_only,
            HandlerRun message_only, OutputParse echoed]]"
  by (simp add: numeral_2_eq_2 router_call.simps example_defs call_defs split: outcome.splits)

text \<open>
  C3: the order of middleware is not outer router, nested router, procedure, each once,
  on every dispatch. The first dispatch of \<open>auth.login\<close> on the nested example enters
  \<open>A, B, C\<close>; the second enters \<open>A, A, B, A, B, C\<close>.
\<close>

theorem second_nested_call_order:
  "map_option (map (\<lambda>(r, t). [n. MiddlewareRun n v \<leftarrow> t]) \<circ> fst)
     (call_times 2 0 (PathString ''auth.login'') hello caller nested_router)
   = Some [[''A'', ''B'', ''C''], [''A'', ''A'', ''B'', ''A'', ''B'', ''C'']]"
  by (simp add: numeral_2_eq_2 router_call.simps example_defs call_defs split: outcome.splits)

text \<open>
  C5: a first segment with no entry among the routes is not always answered with 404.
  The router of \<open>createRouter({ echo })\<close> has no route \<open>toString\<close>, and dispatching
  \<open>toString\<close> is rejected with code 400, "Invalid route at 'toString'": the property
  read finds the inherited function.
\<close>

theorem inherited_name_is_invalid_route:
  "router_call 0 (PathString ''toString'') hello (fresh echo_router)
   = Some (Rejected (RPCError 400 (''Invalid route at '' @ quoted ''toString'') Undefined),
           fresh echo_router)
   \<and> map_option (\<lambda>r. routes r ''toString'') (echo_router 0) = Some None"
  by (simp add: router_call.simps example_defs call_defs)

text \<open>
  C6: a dispatch path whose resolution matches a procedure while residual segments
  remain is not always rejected with code 400. On
  \<open>createRouter({ api: createRouter({ call: echo }) })\<close> the path \<open>api.call.x\<close> leads
  through the router \<open>api\<close> to its route \<open>call\<close>, the procedure \<open>echo\<close>, with \<open>x\<close> left
  over; the dispatch is rejected with a \<open>TypeError\<close>, because \<open>target.call\<close> read on the
  router \<open>api\<close> is that procedure and not the method. On routers whose route names hide
  neither a field nor the method, the answer is 400 at any depth
  (\<open>residual_segments_are_not_callable\<close>).
\<close>

theorem route_named_call_is_type_error:
  "map_option fst (router_call 0 (PathString ''api.call.x'') hello (fresh shadowed_router))
   = Some (Rejected (Foreign ''TypeError''))
   \<and> map_option (\<lambda>r. routes r ''api'') (shadowed_router 0) = Some (Some 1)
   \<and> map_option (\<lambda>r. routes r ''call'') (shadowed_router 1) = Some (Some 2)
   \<and> map_option (map mw_name \<circ> middlewares) (shadowed_router 2) = Some []
   \<and> tl (tl (parts_of (PathString ''api.call.x''))) = [''x'']"
  by (simp add: router_call.simps example_defs call_defs)

text \<open>
  C10, as stated, fails: not every router answers the empty string with 404. The
  empty string is an ordinary property name; on \<open>createRouter({ "": echo })\<close> the
  dispatch of \<open>""\<close> reaches the procedure and resolves.
\<close>

theorem empty_segment_can_be_a_route:
  "map_option fst (router_call 0 (PathString []) hello (fresh index_router)) = Some (Resolved echoed)"
  by (simp add: router_call.simps example_defs call_defs)

text \<open>
  Nor is a router without a route named by the empty string enough: on
  \<open>createRouter({ routes: createRouter({ "": echo }) })\<close> the route \<open>routes\<close> stands
  where \<open>this.routes\<close> is read, and the empty string is looked up on that child.
\<close>

lemma route_named_routes_is_searched:
  "map_option fst (router_call 0 (PathString []) hello (fresh routes_router)) = Some (Resolved echoed)
   \<and> map_option (\<lambda>r. routes r []) (routes_router 0) = Some None"
  by (simp add: router_call.simps example_defs call_defs)

text \<open>
  C10, amended: for every router that has no route named by the empty string, and none
  named \<open>routes\<close>, \<open>Router.call\<close> with the empty string as the path is rejected with the
  tagged error of code 404 (message "Route '' not found"); no middleware or handler is
  entered and the state is the one before the call.
\<close>

theorem empty_path_is_not_found:
  assumes "heap s this = Some (Router rts mws)" and "rts [] = None" and "rts ''routes'' = None"
  shows "router_call this (PathString []) input s
         = Some (Rejected (RPCError 404 (''Route '' @ quoted [] @ '' not found'') Undefined), s)"
  using assms
  by (subst router_call.simps)
     (simp add: routes_read_def get_route_def first_key_def object_prototype_keys_def
        not_found_def rpc_error_def)

theorem empty_path_witness:
  "router_call 0 (PathString []) hello (fresh echo_router)
   = Some (Rejected (RPCError 404 (''Route '' @ quoted [] @ '' not found'') Undefined),
           fresh echo_router)"
  using empty_path_is_not_found [of "fresh echo_router" 0 "[''echo'' \<mapsto> 1]" "[forward ''A'']" hello]
  by (simp add: fresh_def echo_router_def)

section \<open>Failures\<close>




section \<open>Properties of the transport's failure branch\<close>

text \<open>
  C9, as stated, fails. An error that is not an \<open>RPCError\<close> is serialized with code 500,
  but its message is "Internal server error", not "Internal error". And not every
  failure is serialized: for an \<open>RPCError\<close> whose code is not an HTTP status, and for any
  failure once a middleware or the handler has called \<open>res.status\<close>, the \<open>catch\<close> block's
  own \<open>res.writeHead\<close> raises and nothing is written.
\<close>

theorem internal_error_message:
  "error_reply [] (Foreign ''ZodError'')
     = Some (500, Obj [(''error'', Obj [(''code'', Num 500),
                                        (''message'', Str ''Internal server error''),
                                        (''payload'', Null)])])
   \<and> error_reply [] (Foreign ''ZodError'')
     \<noteq> Some (500, Obj [(''error'', Obj [(''code'', Num 500),
                                        (''message'', Str ''Internal error''),
                                        (''payload'', Null)])])
   \<and> error_reply [] (RPCError 42 ''Out of stock'' Undefined) = None
   \<and> error_reply [Status 202] (RPCError 401 ''Authentication required'' Undefined) = None"
  by (simp add: error_reply_def http_error_def rpc_error_def nullish_def valid_status_def
        head_sent_def)

text \<open>
  When nothing is serialized: exactly when the head has been written before, or the code
  to be written is not a status.
\<close>

lemma nothing_serialized:
  "error_reply calls err = None
   \<longleftrightarrow> head_sent calls \<or> \<not> valid_status (code (http_error err))"
  by (auto simp: error_reply_def Let_def)

text \<open>
  C9, amended: at the transport boundary every failure of the dispatch call that the
  response can still take (the head has not been written by \<open>res.status\<close>, and for an
  \<open>RPCError\<close> the code is a status, 100 to 999) is serialized as
  \<open>{ error: { code, message, payload } }\<close>. An \<open>RPCError\<close> gives its own code and
  message, and its payload with \<open>null\<close> for a missing one; every other error, a schema
  validation failure included, gives code 500, message "Internal server error" and
  payload \<open>null\<close>. The status written is the code.
\<close>

theorem failure_reply_shape:
  "(valid_status c \<and> \<not> head_sent calls \<longrightarrow>
      error_reply calls (RPCError c m p)
        = Some (c, Obj [(''error'', Obj [(''code'', Num c), (''message'', Str m),
                                         (''payload'', nullish p Null)])]))
   \<and> (\<not> head_sent calls \<longrightarrow>
      error_reply calls (Foreign d)
        = Some (500, Obj [(''error'', Obj [(''code'', Num 500),
                                           (''message'', Str ''Internal server error''),
                                           (''payload'', Null)])]))"
  by (simp add: error_reply_def http_error_def rpc_error_def nullish_def valid_status_def)

theorem failure_reply_witness:
  "error_reply [SetHeader ''X-Request-Id'' ''7''] (RPCError 401 ''Authentication required'' Undefined)
     = Some (401, Obj [(''error'', Obj [(''code'', Num 401),
                                        (''message'', Str ''Authentication required''),
                                        (''payload'', Null)])])
   \<and> error_reply [Status 99] (Foreign ''ZodError'')
     = Some (500, Obj [(''error'', Obj [(''code'', Num 500),
                                        (''message'', Str ''Internal server error''),
                                        (''payload'', Null)])])"
proof -
  have status: "valid_status 401" by (simp add: valid_status_def)
  have open_head: "\<not> head_sent [SetHeader ''X-Request-Id'' ''7'']" "\<not> head_sent [Status 99]"
    by (simp_all add: head_sent_def valid_status_def)
  from failure_reply_shape [of 401 "[SetHeader ''X-Request-Id'' ''7'']" "''Authentication required''"
         Undefined, THEN conjunct1, THEN mp, OF conjI [OF status open_head(1)]]
       failure_reply_shape [of _ "[Status 99]" _ _ "''ZodError''", THEN conjunct2, THEN mp,
         OF open_head(2)]
  show ?thesis by (simp add: nullish_def)
qed

end
